theory Spec2Isabelle
  imports Complex_Main "HOL-Library.Word" "HOL-Library.Log_Nat"
begin

section \<open>Numbers of the language\<close>

text \<open>
  A number of the language is an IEEE 754 double. The times of the component (the
  readings of \<open>currentTime\<close>, the durations of the buffers, the cursor) are such numbers,
  and line 357 adds two of them: the sum is rounded to the nearest double, ties to the
  even mantissa.

  \<open>rne\<close> rounds a real number to the nearest integer, ties to even. \<open>round53\<close> keeps 53
  significant bits of a real number that is not negative and is given in units of
  \<open>2 ^ -1074\<close>, the smallest positive double; \<open>shift\<close> is the number of low bits that do
  not fit. \<open>fl\<close> is the rounding of any real number. The exponent is not bounded above:
  the times of a session stay far below \<open>2 ^ 1024\<close>, where a double overflows.
\<close>

definition rne :: "real \<Rightarrow> int" where
  "rne x =
    (if x - of_int \<lfloor>x\<rfloor> < 1 / 2 then \<lfloor>x\<rfloor>
     else if 1 / 2 < x - of_int \<lfloor>x\<rfloor> then \<lfloor>x\<rfloor> + 1
     else if even \<lfloor>x\<rfloor> then \<lfloor>x\<rfloor> else \<lfloor>x\<rfloor> + 1)"

definition shift :: "real \<Rightarrow> nat" where
  "shift X = nat (bitlen \<lfloor>X\<rfloor> - 53)"

definition round53 :: "real \<Rightarrow> real" where
  "round53 X = of_int (rne (X / 2 ^ shift X)) * 2 ^ shift X"

definition emin :: nat where
  "emin = 1074"

definition fl :: "real \<Rightarrow> real" where
  "fl x = sgn x * round53 (\<bar>x\<bar> * 2 ^ emin) / 2 ^ emin"

text \<open>
  The doubles are the values of \<open>fl\<close>, ordered as real numbers. \<open>val\<close> is the real number
  a double stands for, \<open>D x\<close> the double nearest to \<open>x\<close>, and \<open>dadd\<close> the addition of the
  language.
\<close>

typedef double = "range fl"
  by blast

setup_lifting type_definition_double

instantiation double :: "{zero, linorder, equal}"
begin

lift_definition zero_double :: double is 0
  by (rule range_eqI [of _ _ 0]) (simp add: fl_def)

lift_definition equal_double :: "double \<Rightarrow> double \<Rightarrow> bool" is "(=)" .

lift_definition less_eq_double :: "double \<Rightarrow> double \<Rightarrow> bool" is "(\<le>)" .

lift_definition less_double :: "double \<Rightarrow> double \<Rightarrow> bool" is "(<)" .

instance
  by standard (transfer; auto)+

end

lift_definition val :: "double \<Rightarrow> real" is "\<lambda>x. x" .

lift_definition D :: "real \<Rightarrow> double" is fl
  by blast

lift_definition dadd :: "double \<Rightarrow> double \<Rightarrow> double" is "\<lambda>x y. fl (x + y)"
  by blast

section \<open>The live conversation view: data model\<close>

text \<open>
  The model follows the component \<open>ConversationalView\<close> (second part of
  \<open>src/App.tsx\<close>). React state cells and \<open>useRef\<close> cells become fields of one record;
  every callback becomes a function from the record to the calls it makes on the
  platform (a list of \<open>effect\<close>s, in program order) and the updated record.

  Objects handed out by the platform (media streams, audio contexts, nodes, sessions)
  are identified by a natural number; \<open>nextId\<close> is the next unused identity, so that
  two objects created by the program are never the same object.

  Times (\<open>AudioContext.currentTime\<close>, \<open>AudioBuffer.duration\<close>, the cursor
  \<open>nextStartTimeRef\<close>) are doubles.
\<close>

datatype speaker = User | Model

record TranscriptEntry =
  speaker :: speaker
  text' :: string
  isFinal :: bool

datatype error = DecodeError | TypeError | MicError

datatype effect =
    GetUserMedia
  | MicOpened nat
  | TracksStop nat
  | ContextOpened nat
  | ContextClose nat
  | ProcessorCreated nat nat
  | ProcessorDisconnect nat
  | Connect nat
  | SessionClose nat
  | SendRealtimeInput nat "8 word list"
  | SourceStart nat double double
  | SourceStop nat
  | ConsoleError

record view =
  isConnecting :: bool
  isActive :: bool
  statusMessage :: string
  transcripts :: "TranscriptEntry list"
  error :: "string option"
  sessionPromise :: "nat option"
  inputAudioContext :: "nat option"
  outputAudioContext :: "nat option"
  scriptProcessor :: "nat option"
  mediaStream :: "nat option"
  audioSources :: "nat list"
  nextStartTime :: double
  nextId :: nat

text \<open>The component as first rendered: the initial values of \<open>useState\<close> and \<open>useRef\<close>.\<close>

definition initial :: view where
  "initial = \<lparr> isConnecting = False, isActive = False,
     statusMessage = ''Press the microphone to start'', transcripts = [], error = None,
     sessionPromise = None, inputAudioContext = None, outputAudioContext = None,
     scriptProcessor = None, mediaStream = None, audioSources = [],
     nextStartTime = 0, nextId = 0 \<rparr>"

section \<open>Teardown\<close>

text \<open>
  \<open>x?.release()\<close> on a ref cell: the call is made only when the cell is not null.
\<close>

definition release :: "(nat \<Rightarrow> effect) \<Rightarrow> nat option \<Rightarrow> effect list" where
  "release f r = (case r of None \<Rightarrow> [] | Some h \<Rightarrow> [f h])"

text \<open>
  \<open>cleanup\<close> (lines 236-257). \<open>TracksStop m\<close> stands for
  \<open>getTracks().forEach(track => track.stop())\<close> on stream \<open>m\<close>; \<open>SessionClose p\<close>
  for \<open>p.then(session => session.close())\<close>.
\<close>

definition cleanup :: "view \<Rightarrow> effect list \<times> view" where
  "cleanup s =
    (release TracksStop (mediaStream s)
       @ release ProcessorDisconnect (scriptProcessor s)
       @ release ContextClose (inputAudioContext s)
       @ release ContextClose (outputAudioContext s)
       @ map SourceStop (audioSources s)
       @ release SessionClose (sessionPromise s),
     s\<lparr> isConnecting := False, isActive := False,
        mediaStream := None, scriptProcessor := None,
        inputAudioContext := None, outputAudioContext := None,
        audioSources := [], nextStartTime := 0,
        sessionPromise := None \<rparr>)"

section \<open>Inbound messages\<close>

record Transcription =
  t_text :: string
  t_isFinal :: bool

record LiveServerMessage =
  inputTranscription :: "Transcription option"
  outputTranscription :: "Transcription option"
  inlineData :: "string option"
  interrupted :: bool

text \<open>
  The updater passed to \<open>setTranscripts\<close> (lines 318-326 for the user, 330-338 for the
  model; the two differ in the speaker literal only). \<open>prev[prev.length - 1]\<close> is
  \<open>undefined\<close> on the empty array, and \<open>last?.speaker === sp\<close> is then false.
\<close>

definition appendTranscript ::
    "speaker \<Rightarrow> string \<Rightarrow> bool \<Rightarrow> TranscriptEntry list \<Rightarrow> TranscriptEntry list" where
  "appendTranscript sp t f prev =
    (case prev of
       [] \<Rightarrow> prev @ [\<lparr> speaker = sp, text' = t, isFinal = f \<rparr>]
     | _ # _ \<Rightarrow>
         (let l = last prev in
          if speaker l = sp \<and> \<not> isFinal l
          then prev[length prev - 1 := l\<lparr> text' := text' l @ t, isFinal := f \<rparr>]
          else prev @ [\<lparr> speaker = sp, text' = t, isFinal = f \<rparr>]))"

definition transcribe :: "speaker \<Rightarrow> Transcription option \<Rightarrow> view \<Rightarrow> view" where
  "transcribe sp tr s =
    (case tr of
       None \<Rightarrow> s
     | Some x \<Rightarrow> s\<lparr> transcripts := appendTranscript sp (t_text x) (t_isFinal x) (transcripts s) \<rparr>)"

text \<open>
  The audio part of \<open>onmessage\<close> (lines 341-359). \<open>decode\<close> and \<open>decodeAudioData\<close>
  live in \<open>utils/audioUtils\<close>; they are the parameter \<open>dec\<close>, which gives the duration
  of the decoded buffer, or \<open>None\<close> when decoding throws. \<open>now\<close> is the reading of
  \<open>audioContext.currentTime\<close>. The empty string is falsy, so it is not enqueued.
  The cursor is raised to \<open>now\<close> before decoding, and a throw leaves it there; the
  \<open>+=\<close> of line 357 is \<open>dadd\<close>.
  \<open>SourceStart src t d\<close> is \<open>source.start(t)\<close> on a source whose buffer lasts \<open>d\<close>.
\<close>

definition enqueue ::
    "(string \<Rightarrow> double option) \<Rightarrow> double \<Rightarrow> string option \<Rightarrow> view \<Rightarrow> effect list \<times> (error + unit) \<times> view" where
  "enqueue dec now a s =
    (case a of
       None \<Rightarrow> ([], Inr (), s)
     | Some b \<Rightarrow>
         if b \<noteq> [] \<and> outputAudioContext s \<noteq> None then
           (let s1 = s\<lparr> statusMessage := ''AI is speaking...'',
                        nextStartTime := max (nextStartTime s) now \<rparr>
            in case dec b of
                 None \<Rightarrow> ([], Inl DecodeError, s1)
               | Some d \<Rightarrow>
                   ([SourceStart (nextId s1) (nextStartTime s1) d], Inr (),
                    s1\<lparr> nextId := nextId s1 + 1,
                        nextStartTime := dadd (nextStartTime s1) d,
                        audioSources := audioSources s1 @ [nextId s1] \<rparr>))
         else ([], Inr (), s))"

text \<open>The interruption block (lines 361-365).\<close>

definition interrupt :: "view \<Rightarrow> effect list \<times> view" where
  "interrupt s = (map SourceStop (audioSources s), s\<lparr> audioSources := [], nextStartTime := 0 \<rparr>)"

text \<open>
  \<open>onmessage\<close> (lines 315-366). The handler has no \<open>try\<close>: a throw while decoding
  rejects the promise of the handler, and the statements after it do not run.
\<close>

definition onmessage ::
    "(string \<Rightarrow> double option) \<Rightarrow> double \<Rightarrow> LiveServerMessage \<Rightarrow> view \<Rightarrow> effect list \<times> (error + unit) \<times> view" where
  "onmessage dec now m s =
    (let s1 = transcribe User (inputTranscription m) s;
         s2 = transcribe Model (outputTranscription m) s1
     in case enqueue dec now (inlineData m) s2 of
          (es, Inl e, s3) \<Rightarrow> (es, Inl e, s3)
        | (es, Inr u, s3) \<Rightarrow>
            if interrupted m
            then (es @ fst (interrupt s3), Inr (), snd (interrupt s3))
            else (es, Inr (), s3))"

text \<open>The \<open>ended\<close> listener of a playback source (lines 350-355).\<close>

definition onended :: "nat \<Rightarrow> view \<Rightarrow> view" where
  "onended src s =
    (let rest = removeAll src (audioSources s)
     in s\<lparr> audioSources := rest,
           statusMessage := (if rest = [] then ''Listening...'' else statusMessage s) \<rparr>)"

section \<open>Capture\<close>

text \<open>
  The store \<open>int16[i] = inputData[i] * 32768\<close> into an \<open>Int16Array\<close> (line 302) is
  the conversion ToInt16 of the language: the number is truncated towards zero and then
  taken modulo \<open>2 ^ 16\<close>; \<open>sint\<close> reads the stored element. The samples are 32-bit
  floats and 32768 is a power of two, so the product is exact and the real number
  \<open>x * 32768\<close> is the value that is converted.
\<close>

definition trunc :: "real \<Rightarrow> int" where
  "trunc x = (if 0 \<le> x then \<lfloor>x\<rfloor> else \<lceil>x\<rceil>)"

definition toInt16 :: "real \<Rightarrow> 16 word" where
  "toInt16 x = word_of_int (trunc x)"

definition int16 :: "real list \<Rightarrow> 16 word list" where
  "int16 inputData = map (\<lambda>x. toInt16 (x * 32768)) inputData"

text \<open>
  \<open>new Uint8Array(int16.buffer)\<close> (line 305): the bytes of the elements, low byte
  first on the little-endian platforms the browser runs on.
\<close>

definition bytes16 :: "16 word \<Rightarrow> 8 word list" where
  "bytes16 w = [ucast w, ucast (drop_bit 8 w)]"

definition uint8Array :: "16 word list \<Rightarrow> 8 word list" where
  "uint8Array ws = concat (map bytes16 ws)"

text \<open>
  \<open>onaudioprocess\<close> (lines 297-311). \<open>SendRealtimeInput p bs\<close> is
  \<open>session.sendRealtimeInput\<close> on the session of promise \<open>p\<close>, with the bytes handed to
  \<open>encode\<close> (of \<open>utils/audioUtils\<close>).
\<close>

definition onaudioprocess :: "real list \<Rightarrow> view \<Rightarrow> effect list" where
  "onaudioprocess inputData s =
     release (\<lambda>p. SendRealtimeInput p (uint8Array (int16 inputData))) (sessionPromise s)"

section \<open>Session lifecycle\<close>

text \<open>
  \<open>handleToggleConversation\<close> (lines 259-386) is an \<open>async\<close> function that waits for
  \<open>getUserMedia\<close> at line 272: other callbacks run between the two halves. The first
  half (lines 259-272) runs in the click; \<open>GetUserMedia\<close> is the request.
\<close>

definition handleToggleConversation :: "view \<Rightarrow> effect list \<times> view" where
  "handleToggleConversation s =
    (if isActive s
     then (fst (cleanup s),
           (snd (cleanup s))\<lparr> statusMessage := ''Session ended. Press the microphone to start again.'' \<rparr>)
     else ([GetUserMedia],
           s\<lparr> isConnecting := True, error := None, transcripts := [],
              statusMessage := ''Connecting to Gemini and requesting microphone...'' \<rparr>))"

text \<open>
  The second half (lines 272-278 and the \<open>catch\<close> of lines 380-385), run when
  \<open>getUserMedia\<close> settles: with a stream (\<open>Inr\<close>), or rejected (\<open>Inl\<close>). The stream, the
  two audio contexts and the session promise are new objects. \<open>Connect p\<close> is
  \<open>ai.live.connect\<close>, the opening of the transport.
\<close>

definition handleToggleConversation_resume :: "error + unit \<Rightarrow> view \<Rightarrow> effect list \<times> view" where
  "handleToggleConversation_resume mic s =
    (case mic of
       Inr u \<Rightarrow>
         (let i = nextId s in
          ([MicOpened i, ContextOpened (i + 1), ContextOpened (i + 2), Connect (i + 3)],
           s\<lparr> mediaStream := Some i,
              inputAudioContext := Some (i + 1),
              outputAudioContext := Some (i + 2),
              sessionPromise := Some (i + 3),
              nextId := i + 4 \<rparr>))
     | Inl e \<Rightarrow>
         (let s1 = s\<lparr> error := Some ''Could not start the microphone. Please check permissions and try again.'' \<rparr>
          in (ConsoleError # fst (cleanup s1),
              (snd (cleanup s1))\<lparr> statusMessage := ''Error. Press microphone to retry.'' \<rparr>)))"

text \<open>
  \<open>onopen\<close> (lines 289-314); \<open>stream\<close> is the variable of the enclosing call.
  \<open>inputAudioContextRef.current!\<close> is not checked: on a null cell the call throws, after
  the flags are set. The source node and the script processor are new objects.
\<close>

definition onopen :: "nat \<Rightarrow> view \<Rightarrow> effect list \<times> (error + unit) \<times> view" where
  "onopen stream s =
    (let s1 = s\<lparr> isConnecting := False, isActive := True,
                 statusMessage := ''Listening... Speak now.'' \<rparr>
     in case inputAudioContext s1 of
          None \<Rightarrow> ([], Inl TypeError, s1)
        | Some ctx \<Rightarrow>
            ([ProcessorCreated stream (nextId s1 + 1)], Inr (),
             s1\<lparr> scriptProcessor := Some (nextId s1 + 1), nextId := nextId s1 + 2 \<rparr>))"

text \<open>\<open>onerror\<close> (lines 367-372) and \<open>onclose\<close> (lines 373-376).\<close>

definition onerror :: "view \<Rightarrow> effect list \<times> view" where
  "onerror s =
    (let s1 = s\<lparr> error := Some ''An error occurred during the session. Please try again.'' \<rparr>
     in (ConsoleError # fst (cleanup s1),
         (snd (cleanup s1))\<lparr> statusMessage := ''Error. Press microphone to retry.'' \<rparr>))"

definition onclose :: "view \<Rightarrow> effect list \<times> view" where
  "onclose s =
    (fst (cleanup s),
     (snd (cleanup s))\<lparr> statusMessage := ''Session closed. Press microphone to start again.'' \<rparr>)"

text \<open>
  The button (lines 412-421) is \<open>disabled\<close> while \<open>isConnecting\<close>: a click then reaches
  no handler.
\<close>

definition click :: "view \<Rightarrow> effect list \<times> view" where
  "click s = (if isConnecting s then ([], s) else handleToggleConversation s)"

text \<open>
  What can happen to the component, one callback at a time: each runs to its end (or to
  its throw) before the next one starts.
\<close>

datatype event =
    Click
  | MicResolved "error + unit"
  | Open nat
  | Message double LiveServerMessage
  | TransportError
  | TransportClose
  | AudioProcess "real list"
  | Ended nat
  | Unmount

fun step :: "(string \<Rightarrow> double option) \<Rightarrow> event \<Rightarrow> view \<Rightarrow> effect list \<times> view" where
  "step dec Click s = click s"
| "step dec (MicResolved r) s = handleToggleConversation_resume r s"
| "step dec (Open stream) s = (fst (onopen stream s), snd (snd (onopen stream s)))"
| "step dec (Message now m) s = (fst (onmessage dec now m s), snd (snd (onmessage dec now m s)))"
| "step dec TransportError s = onerror s"
| "step dec TransportClose s = onclose s"
| "step dec (AudioProcess inputData) s = (onaudioprocess inputData s, s)"
| "step dec (Ended src) s = ([], onended src s)"
| "step dec Unmount s = cleanup s"

fun run :: "(string \<Rightarrow> double option) \<Rightarrow> event list \<Rightarrow> view \<Rightarrow> effect list \<times> view" where
  "run dec [] s = ([], s)"
| "run dec (e # es) s =
     (fst (step dec e s) @ fst (run dec es (snd (step dec e s))),
      snd (run dec es (snd (step dec e s))))"

section \<open>Vocabulary of the properties\<close>

text \<open>
  The playback sources started by a run, in the order of the calls: start time on the
  output timeline and duration of the buffer.
\<close>

definition scheduled :: "effect list \<Rightarrow> (double \<times> double) list" where
  "scheduled es = concat (map (\<lambda>e. case e of SourceStart i t d \<Rightarrow> [(t, d)] | _ \<Rightarrow> []) es)"

text \<open>
  No source starts before the end of the source scheduled before it, the end being the
  sum of start and duration as real numbers.
\<close>

fun gapless :: "(double \<times> double) list \<Rightarrow> bool" where
  "gapless (a # b # r) = (val (fst a) + val (snd a) \<le> val (fst b) \<and> gapless (b # r))"
| "gapless _ = True"

text \<open>The same with the end as line 357 computes it, the sum of the language.\<close>

fun chained :: "(double \<times> double) list \<Rightarrow> bool" where
  "chained (a # b # r) = (dadd (fst a) (snd a) \<le> fst b \<and> chained (b # r))"
| "chained _ = True"

text \<open>Inbound messages, each with the reading of the output clock when it is handled.\<close>

definition messages :: "(double \<times> LiveServerMessage) list \<Rightarrow> event list" where
  "messages ms = map (\<lambda>(now, m). Message now m) ms"

text \<open>An \<open>AudioBuffer\<close> has a duration that is not negative.\<close>

definition durations_nonneg :: "(string \<Rightarrow> double option) \<Rightarrow> bool" where
  "durations_nonneg dec \<longleftrightarrow> (\<forall>b d. dec b = Some d \<longrightarrow> 0 \<le> d)"

text \<open>
  What a JavaScript \<open>Set\<close> and object identity give: no source is twice in the set of
  playback sources, and the two audio contexts are two objects.
\<close>

definition handles_distinct :: "view \<Rightarrow> bool" where
  "handles_distinct s \<longleftrightarrow>
     distinct (audioSources s) \<and>
     (inputAudioContext s = None \<or> inputAudioContext s \<noteq> outputAudioContext s)"

text \<open>The calls made by two teardowns in a row.\<close>

definition teardown2 :: "view \<Rightarrow> effect list" where
  "teardown2 s = fst (cleanup s) @ fst (cleanup (snd (cleanup s)))"

text \<open>
  The transitions that run the interruption block or \<open>cleanup\<close>: a click on the stop
  button, a rejected microphone request, a message flagged \<open>interrupted\<close>, an error or
  close of the transport, and the unmount of the component.
\<close>

fun resets :: "event \<Rightarrow> view \<Rightarrow> bool" where
  "resets Click s = (\<not> isConnecting s \<and> isActive s)"
| "resets (MicResolved r) s = (case r of Inl e \<Rightarrow> True | Inr u \<Rightarrow> False)"
| "resets (Message now m) s = interrupted m"
| "resets TransportError s = True"
| "resets TransportClose s = True"
| "resets Unmount s = True"
| "resets (Open stream) s = False"
| "resets (AudioProcess inputData) s = False"
| "resets (Ended src) s = False"

text \<open>
  The streams opened and not stopped by a run, and the sessions connected and not
  closed by it.
\<close>

definition held_streams :: "effect list \<Rightarrow> nat list" where
  "held_streams es =
     concat (map (\<lambda>e. case e of MicOpened m \<Rightarrow> (if TracksStop m \<in> set es then [] else [m])
                               | _ \<Rightarrow> []) es)"

definition open_sessions :: "effect list \<Rightarrow> nat list" where
  "open_sessions es =
     concat (map (\<lambda>e. case e of Connect p \<Rightarrow> (if SessionClose p \<in> set es then [] else [p])
                               | _ \<Rightarrow> []) es)"

subsection \<open>Concrete inputs\<close>

text \<open>A decoder that knows two payloads, of 2 and of 1 second, and throws on the rest.\<close>

definition dec0 :: "string \<Rightarrow> double option" where
  "dec0 b = (if b = ''AAAA'' then Some (D 2) else if b = ''BB'' then Some (D 1) else None)"

text \<open>
  A decoder of two payloads of 2400 and 16800 frames: at 24000 frames a second their
  durations are the doubles nearest to 0.1 and to 0.7.
\<close>

definition dec1 :: "string \<Rightarrow> double option" where
  "dec1 b = (if b = ''A'' then Some (D (1 / 10)) else if b = ''B'' then Some (D (7 / 10)) else None)"

definition audio :: "string \<Rightarrow> LiveServerMessage" where
  "audio b = \<lparr> inputTranscription = None, outputTranscription = None,
               inlineData = Some b, interrupted = False \<rparr>"

definition barge_in :: LiveServerMessage where
  "barge_in = \<lparr> inputTranscription = None, outputTranscription = None,
                inlineData = None, interrupted = True \<rparr>"

text \<open>
  \<open>live\<close> is the component after a click, a granted microphone and the \<open>onopen\<close> of the
  session; \<open>busy\<close> is \<open>live\<close> after two chunks of 2 seconds, both still in flight.
\<close>

definition live :: view where
  "live = \<lparr> isConnecting = False, isActive = True,
     statusMessage = ''Listening... Speak now.'', transcripts = [], error = None,
     sessionPromise = Some 3, inputAudioContext = Some 1, outputAudioContext = Some 2,
     scriptProcessor = Some 5, mediaStream = Some 0, audioSources = [],
     nextStartTime = 0, nextId = 6 \<rparr>"

definition busy :: view where
  "busy = live\<lparr> statusMessage := ''AI is speaking...'', audioSources := [6, 7],
               nextStartTime := D 4, nextId := 8 \<rparr>"

text \<open>
  A stop followed at once by a start: the \<open>onclose\<close> of the stopped session arrives
  while the new microphone request is pending, and the user clicks once more before
  the new session opens.
\<close>

definition race :: "event list" where
  "race = [Click, MicResolved (Inr ()), Open 0, Click, Click, TransportClose,
           MicResolved (Inr ()), Click, MicResolved (Inr ())]"

section \<open>Arithmetic of doubles\<close>

lemma rne_of_int: "rne (of_int k) = k"
  by (simp add: rne_def)

lemma rne_bounds: "x - 1 / 2 \<le> of_int (rne x) \<and> of_int (rne x) \<le> x + 1 / 2"
  unfolding rne_def by (auto; linarith)

lemma rne_mono: "x \<le> y \<Longrightarrow> rne x \<le> rne y"
proof -
  assume xy: "x \<le> y"
  then have f: "\<lfloor>x\<rfloor> \<le> \<lfloor>y\<rfloor>" by (rule floor_mono)
  show ?thesis
  proof (cases "\<lfloor>x\<rfloor> = \<lfloor>y\<rfloor>")
    case True
    with xy show ?thesis unfolding rne_def by auto
  next
    case False
    with f have "\<lfloor>x\<rfloor> + 1 \<le> \<lfloor>y\<rfloor>" by simp
    moreover have "rne x \<le> \<lfloor>x\<rfloor> + 1" unfolding rne_def by auto
    moreover have "\<lfloor>y\<rfloor> \<le> rne y" unfolding rne_def by auto
    ultimately show ?thesis by linarith
  qed
qed

lemma rne_le: "x \<le> of_int k \<Longrightarrow> rne x \<le> k"
  using rne_mono [of x "of_int k"] by (simp add: rne_of_int)

lemma rne_ge: "of_int k \<le> x \<Longrightarrow> k \<le> rne x"
  using rne_mono [of "of_int k" x] by (simp add: rne_of_int)

lemma shift_mono: "X \<le> Y \<Longrightarrow> shift X \<le> shift Y"
proof -
  assume "X \<le> Y"
  then have "nat \<lfloor>X\<rfloor> \<le> nat \<lfloor>Y\<rfloor>" by (simp add: floor_mono nat_mono)
  then have "bitlen \<lfloor>X\<rfloor> \<le> bitlen \<lfloor>Y\<rfloor>"
    unfolding bitlen_def by (simp add: floorlog_mono)
  then show ?thesis by (simp add: shift_def)
qed

lemma below_top: "X < 2 ^ (53 + shift X)"
proof -
  have "bitlen \<lfloor>X\<rfloor> \<le> int (53 + shift X)"
    by (simp add: shift_def)
  then have "\<lfloor>X\<rfloor> < 2 ^ (53 + shift X)"
    by (simp add: bitlen_le_iff_power nat_add_distrib)
  then have "\<lfloor>X\<rfloor> + 1 \<le> 2 ^ (53 + shift X)" by simp
  then have "real_of_int (\<lfloor>X\<rfloor> + 1) \<le> real_of_int (2 ^ (53 + shift X))"
    by (simp only: of_int_le_iff)
  then have "real_of_int \<lfloor>X\<rfloor> + 1 \<le> 2 ^ (53 + shift X)" by simp
  moreover have "X < real_of_int \<lfloor>X\<rfloor> + 1" by linarith
  ultimately show ?thesis by linarith
qed

lemma above_bottom: "0 < shift X \<Longrightarrow> 2 ^ (52 + shift X) \<le> X"
proof -
  assume s: "0 < shift X"
  then have "int (53 + shift X) \<le> bitlen \<lfloor>X\<rfloor>"
    by (simp add: shift_def)
  then have "2 ^ (nat (int (53 + shift X)) - 1) \<le> \<lfloor>X\<rfloor>"
    by (simp add: bitlen_ge_iff_power)
  then have "2 ^ (52 + shift X) \<le> \<lfloor>X\<rfloor>" by (simp add: nat_add_distrib)
  then have "real_of_int (2 ^ (52 + shift X)) \<le> real_of_int \<lfloor>X\<rfloor>"
    by (simp only: of_int_le_iff)
  also have "\<dots> \<le> X" by simp
  finally show ?thesis by simp
qed

lemma round53_le_top: "round53 X \<le> 2 ^ (53 + shift X)"
proof -
  have "X / 2 ^ shift X \<le> 2 ^ 53"
    using below_top [of X] by (simp add: power_add field_simps)
  then have "X / 2 ^ shift X \<le> real_of_int (2 ^ 53)" by simp
  then have "rne (X / 2 ^ shift X) \<le> 2 ^ 53" by (rule rne_le)
  then have "real_of_int (rne (X / 2 ^ shift X)) \<le> real_of_int (2 ^ 53)"
    by (simp only: of_int_le_iff)
  then show ?thesis
    by (simp add: round53_def power_add)
qed

lemma round53_ge_bottom: "0 < shift X \<Longrightarrow> 2 ^ (52 + shift X) \<le> round53 X"
proof -
  assume s: "0 < shift X"
  have "2 ^ 52 \<le> X / 2 ^ shift X"
    using above_bottom [OF s] by (simp add: power_add field_simps)
  then have "real_of_int (2 ^ 52) \<le> X / 2 ^ shift X" by simp
  then have "2 ^ 52 \<le> rne (X / 2 ^ shift X)" by (rule rne_ge)
  then have "real_of_int (2 ^ 52) \<le> real_of_int (rne (X / 2 ^ shift X))"
    by (simp only: of_int_le_iff)
  then show ?thesis
    by (simp add: round53_def power_add)
qed

lemma round53_nonneg: "0 \<le> X \<Longrightarrow> 0 \<le> round53 X"
proof -
  assume "0 \<le> X"
  then have "real_of_int 0 \<le> X / 2 ^ shift X" by simp
  then have "0 \<le> rne (X / 2 ^ shift X)" by (rule rne_ge)
  then show ?thesis by (simp add: round53_def)
qed

lemma round53_mono: "X \<le> Y \<Longrightarrow> round53 X \<le> round53 Y"
proof -
  assume xy: "X \<le> Y"
  from shift_mono [OF xy] consider "shift X = shift Y" | "shift X < shift Y" by linarith
  then show ?thesis
  proof cases
    case 1
    from xy have "X / 2 ^ shift Y \<le> Y / 2 ^ shift Y" by (simp add: divide_right_mono)
    then have "rne (X / 2 ^ shift Y) \<le> rne (Y / 2 ^ shift Y)" by (rule rne_mono)
    then show ?thesis by (simp add: round53_def 1)
  next
    case 2
    then have "0 < shift Y" and "53 + shift X \<le> 52 + shift Y" by simp_all
    then have "(2::real) ^ (53 + shift X) \<le> 2 ^ (52 + shift Y)"
      by simp
    with round53_le_top [of X] round53_ge_bottom [OF \<open>0 < shift Y\<close>]
    show ?thesis by linarith
  qed
qed

text \<open>A value with at most 53 significant bits is not changed.\<close>

lemma round53_exact:
  assumes "0 \<le> m" and "m \<le> 2 ^ 53"
  shows "round53 (of_int m * 2 ^ k) = of_int m * 2 ^ k"
proof -
  let ?X = "real_of_int m * 2 ^ k"
  have fl: "\<lfloor>?X\<rfloor> = m * 2 ^ k"
  proof -
    have "?X = real_of_int (m * 2 ^ k)" by simp
    then show ?thesis by (simp only: floor_of_int)
  qed
  have "\<exists>i. ?X / 2 ^ shift ?X = real_of_int i"
  proof (cases "m = 0")
    case True
    then show ?thesis by (auto intro: exI [of _ 0])
  next
    case False
    with assms have pos: "0 < m" by simp
    show ?thesis
    proof (cases "m = 2 ^ 53")
      case True
      have "bitlen (m * 2 ^ k) = 54 + int k"
        using bitlen_pow2 [of "2 ^ 53" k] bitlen_twopow_add_eq [of 0 53]
        by (simp add: True)
      then have "shift ?X = Suc k" by (simp add: shift_def fl)
      then have "?X / 2 ^ shift ?X = real_of_int (2 ^ 52)" by (simp add: True)
      then show ?thesis by blast
    next
      case False
      with assms have "m < 2 ^ 53" by simp
      then have "bitlen m \<le> 53" by (simp add: bitlen_le_iff_power)
      then have "shift ?X \<le> k"
        using bitlen_pow2 [OF pos, of k] by (simp add: shift_def fl)
      then obtain d where k: "k = shift ?X + d" using le_Suc_ex by blast
      have "?X / 2 ^ shift ?X = real_of_int m * 2 ^ d"
        by (subst (1) k) (simp add: power_add)
      also have "\<dots> = real_of_int (m * 2 ^ d)" by simp
      finally show ?thesis by blast
    qed
  qed
  then obtain i where i: "?X / 2 ^ shift ?X = real_of_int i" ..
  then have "?X = real_of_int i * 2 ^ shift ?X" by (simp add: field_simps)
  moreover have "round53 ?X = real_of_int i * 2 ^ shift ?X"
    by (simp only: round53_def i rne_of_int)
  ultimately show ?thesis by simp
qed

lemma round53_idem: "0 \<le> X \<Longrightarrow> round53 (round53 X) = round53 X"
proof -
  assume x: "0 \<le> X"
  let ?r = "rne (X / 2 ^ shift X)"
  from x have "real_of_int 0 \<le> X / 2 ^ shift X" by simp
  then have 0: "0 \<le> ?r" by (rule rne_ge)
  have "X / 2 ^ shift X \<le> real_of_int (2 ^ 53)"
    using below_top [of X] by (simp add: power_add field_simps)
  then have 1: "?r \<le> 2 ^ 53" by (rule rne_le)
  from round53_exact [OF 0 1, of "shift X"] show ?thesis
    by (simp add: round53_def)
qed

lemma fl_0: "fl 0 = 0"
  by (simp add: fl_def)

lemma fl_nonneg_eq: "0 \<le> x \<Longrightarrow> fl x = round53 (x * 2 ^ emin) / 2 ^ emin"
  using rne_of_int [of 0] by (cases "x = 0") (simp_all add: fl_def round53_def)

lemma fl_neg: "fl (- x) = - fl x"
  by (simp add: fl_def sgn_minus)

lemma fl_nonneg: "0 \<le> x \<Longrightarrow> 0 \<le> fl x"
  by (simp add: fl_nonneg_eq round53_nonneg)

lemma fl_mono_nonneg: "0 \<le> x \<Longrightarrow> x \<le> y \<Longrightarrow> fl x \<le> fl y"
  by (simp add: fl_nonneg_eq round53_mono divide_right_mono)

lemma fl_mono: "x \<le> y \<Longrightarrow> fl x \<le> fl y"
proof -
  assume xy: "x \<le> y"
  consider "0 \<le> x" | "x < 0" "0 \<le> y" | "x < 0" "y < 0" by linarith
  then show ?thesis
  proof cases
    case 1
    from this xy show ?thesis by (rule fl_mono_nonneg)
  next
    case 2
    then have "0 \<le> fl (- x)" and "0 \<le> fl y" by (simp_all add: fl_nonneg)
    then show ?thesis by (simp add: fl_neg)
  next
    case 3
    with xy have "fl (- y) \<le> fl (- x)" by (intro fl_mono_nonneg) simp_all
    then show ?thesis by (simp add: fl_neg)
  qed
qed

lemma fl_idem_nonneg: "0 \<le> x \<Longrightarrow> fl (fl x) = fl x"
proof -
  assume x: "0 \<le> x"
  then have "0 \<le> x * 2 ^ emin" by simp
  from round53_idem [OF this] fl_nonneg [OF x] x show ?thesis
    by (simp add: fl_nonneg_eq)
qed

lemma fl_idem: "fl (fl x) = fl x"
proof (cases "0 \<le> x")
  case True
  then show ?thesis by (rule fl_idem_nonneg)
next
  case False
  then have "fl (fl (- x)) = fl (- x)" by (intro fl_idem_nonneg) simp
  then show ?thesis by (simp add: fl_neg)
qed

text \<open>Values with at most 53 significant bits, above the smallest exponent, are doubles.\<close>

lemma fl_exact:
  assumes "0 \<le> m" and "m \<le> 2 ^ 53" and "e \<le> emin"
  shows "fl (of_int m / 2 ^ e) = of_int m / 2 ^ e"
proof -
  from assms(3) obtain k where k: "emin = e + k" using le_Suc_ex by blast
  have p: "(2::real) ^ emin = 2 ^ e * 2 ^ k"
    by (simp only: k power_add)
  have "real_of_int m / 2 ^ e * 2 ^ emin = real_of_int m * 2 ^ k"
    by (simp add: p)
  moreover have "real_of_int m * 2 ^ k / 2 ^ emin = real_of_int m / 2 ^ e"
    by (simp add: p)
  moreover have "0 \<le> real_of_int m / 2 ^ e" using assms(1) by simp
  ultimately show ?thesis
    using round53_exact [OF assms(1,2), of k] by (simp only: fl_nonneg_eq)
qed

lemma fl_of_int: "\<bar>n\<bar> \<le> 2 ^ 53 \<Longrightarrow> fl (of_int n) = of_int n"
proof (cases "0 \<le> n")
  case True
  assume "\<bar>n\<bar> \<le> 2 ^ 53"
  with True fl_exact [of n 0] show ?thesis by simp
next
  case False
  assume "\<bar>n\<bar> \<le> 2 ^ 53"
  with False fl_exact [of "- n" 0] have "fl (- of_int n) = - of_int n" by simp
  then show ?thesis by (simp add: fl_neg)
qed

lemma fl_numeral: "numeral k \<le> (2 ^ 53 :: int) \<Longrightarrow> fl (numeral k) = numeral k"
  using fl_of_int [of "numeral k"] by simp

lemma fl_1: "fl 1 = 1"
  using fl_of_int [of 1] by simp

text \<open>A value \<open>y / 2 ^ e\<close> whose mantissa \<open>y\<close> has a fractional part: the mantissa is rounded.\<close>

lemma fl_round:
  assumes "2 ^ 52 \<le> y" and "y < 2 ^ 53" and "e \<le> emin"
  shows "fl (y / 2 ^ e) = of_int (rne y) / 2 ^ e"
proof -
  from assms(3) obtain k where k: "emin = e + k" using le_Suc_ex by blast
  have p: "(2::real) ^ emin = 2 ^ e * 2 ^ k"
    by (simp only: k power_add)
  let ?X = "y * 2 ^ k"
  have X: "y / 2 ^ e * 2 ^ emin = ?X" by (simp add: p)
  have lo: "2 ^ (52 + k) \<le> ?X" using assms(1) by (simp add: power_add)
  have hi: "?X < 2 ^ (53 + k)" using assms(2) by (simp add: power_add)
  have "\<lfloor>?X\<rfloor> < 2 ^ (53 + k)"
    using hi by (simp add: floor_less_iff)
  moreover have "2 ^ (52 + k) \<le> \<lfloor>?X\<rfloor>"
    using lo by (simp add: le_floor_iff)
  ultimately have "bitlen \<lfloor>?X\<rfloor> = 53 + int k"
    by (intro antisym) (simp_all add: bitlen_le_iff_power bitlen_ge_iff_power nat_add_distrib)
  then have s: "shift ?X = k" by (simp add: shift_def)
  have "round53 ?X = of_int (rne y) * 2 ^ k"
    by (simp add: round53_def s)
  moreover have "0 \<le> y / 2 ^ e" using assms(1) by (simp add: order_trans [of 0 "2 ^ 52" y])
  ultimately show ?thesis
    by (simp add: fl_nonneg_eq X p)
qed

lemma val_D: "val (D x) = fl x"
  by transfer simp

lemma val_dadd: "val (dadd a b) = fl (val a + val b)"
  by transfer simp

lemma val_0: "val 0 = 0"
  by transfer simp

lemma fl_val: "fl (val a) = val a"
  by transfer (auto simp: fl_idem)

lemma le_val: "a \<le> b \<longleftrightarrow> val a \<le> val b"
  by transfer simp

lemma less_val: "a < b \<longleftrightarrow> val a < val b"
  by transfer simp

lemma eq_val: "a = b \<longleftrightarrow> val a = val b"
  by transfer simp

lemma val_max: "val (max a b) = max (val a) (val b)"
  by (simp add: max_def le_val)

lemma dadd_ge: "0 \<le> d \<Longrightarrow> t \<le> dadd t d"
proof -
  assume "0 \<le> d"
  then have "val t \<le> val t + val d" by (simp add: le_val val_0)
  then have "fl (val t) \<le> fl (val t + val d)" by (rule fl_mono)
  then show ?thesis by (simp add: le_val val_dadd fl_val)
qed

lemma dadd_0: "dadd 0 d = d"
  by (simp add: eq_val val_dadd val_0 fl_val)

lemma D_0: "D 0 = 0"
  by (simp add: eq_val val_D val_0 fl_0)

lemma D_mono: "x \<le> y \<Longrightarrow> D x \<le> D y"
  by (simp add: le_val val_D fl_mono)

lemma D_nonneg: "0 \<le> x \<Longrightarrow> 0 \<le> D x"
  using D_mono [of 0 x] by (simp add: D_0)

lemma max_D: "max (D x) (D y) = D (max x y)"
proof (cases "x \<le> y")
  case True
  then show ?thesis by (simp add: max_def D_mono)
next
  case False
  then have "D y \<le> D x" by (simp add: D_mono)
  with False show ?thesis by (auto simp: max_def)
qed

lemma max_0_D: "max 0 (D x) = D (max 0 x)"
  using max_D [of 0 x] by (simp add: D_0)

lemma max_D_0: "max (D x) 0 = D (max x 0)"
  using max_D [of x 0] by (simp add: D_0)

lemma dadd_D: "dadd (D x) (D y) = D (fl x + fl y)"
  by (simp add: eq_val val_dadd val_D)

lemma dadd_0_right: "dadd d 0 = d"
  by (simp add: eq_val val_dadd val_0 fl_val)

lemma dadd_nonneg: "0 \<le> a \<Longrightarrow> 0 \<le> b \<Longrightarrow> 0 \<le> dadd a b"
  using dadd_ge [of b a] by simp

lemmas double_simps = max_D max_0_D max_D_0 dadd_D dadd_0 dadd_0_right fl_numeral fl_0 fl_1 D_0

text \<open>The doubles nearest to 0.1 and to 0.7, and the sum of the two in the language.\<close>

lemma fl_tenth: "fl (1 / 10) = 3602879701896397 / 2 ^ 55"
proof -
  have "fl (1 / 10) = fl ((2 ^ 56 / 10) / 2 ^ 56)" by simp
  also have "\<dots> = of_int (rne (2 ^ 56 / 10)) / 2 ^ 56"
    by (rule fl_round) (simp_all add: emin_def)
  also have "rne (2 ^ 56 / 10) = 7205759403792794"
    by (simp add: rne_def)
  finally show ?thesis by simp
qed

lemma fl_seven_tenths: "fl (7 / 10) = 3152519739159347 / 2 ^ 52"
proof -
  have "fl (7 / 10) = fl ((2 ^ 53 * 7 / 10) / 2 ^ 53)" by simp
  also have "\<dots> = of_int (rne (2 ^ 53 * 7 / 10)) / 2 ^ 53"
    by (rule fl_round) (simp_all add: emin_def)
  also have "rne (2 ^ 53 * 7 / 10) = 6305039478318694"
    by (simp add: rne_def)
  finally show ?thesis by simp
qed

lemma fl_sum: "fl (3602879701896397 / 2 ^ 55 + 3152519739159347 / 2 ^ 52) = 7205759403792793 / 2 ^ 53"
proof -
  have "(3602879701896397 / 2 ^ 55 + 3152519739159347 / 2 ^ 52 :: real)
      = (28823037615171173 / 4) / 2 ^ 53"
    by simp
  also have "fl \<dots> = of_int (rne (28823037615171173 / 4)) / 2 ^ 53"
    by (rule fl_round) (simp_all add: emin_def)
  also have "rne (28823037615171173 / 4) = 7205759403792793"
    by (simp add: rne_def)
  finally show ?thesis by simp
qed

section \<open>Transcript aggregation\<close>

lemma list_case_if: "(case xs of [] \<Rightarrow> a | y # ys \<Rightarrow> b) = (if xs = [] then a else b)"
  by (cases xs) simp_all

lemma appendTranscript_if:
  "appendTranscript sp t f prev =
     (if prev \<noteq> [] \<and> speaker (last prev) = sp \<and> \<not> isFinal (last prev)
      then butlast prev @ [(last prev)\<lparr> text' := text' (last prev) @ t, isFinal := f \<rparr>]
      else prev @ [\<lparr> speaker = sp, text' = t, isFinal = f \<rparr>])"
proof (cases prev rule: rev_cases)
  case Nil
  then show ?thesis by (simp add: appendTranscript_def)
next
  case (snoc ys y)
  then show ?thesis
    by (simp add: appendTranscript_def list_case_if Let_def)
qed

text \<open>
  Claim C3. Appending a fragment \<open>(sp, t, f)\<close>: when the last entry exists, has speaker
  \<open>sp\<close> and is not final, the result is the old sequence with \<open>t\<close> concatenated onto the
  text of its last entry and the flag of that entry overwritten with \<open>f\<close>, and no entry
  is added; otherwise the result is the old sequence followed by the new entry
  \<open>(sp, t, f)\<close>. In both cases every entry but the last one stays where it was, and the
  sequence never gets shorter. The handler of a message applies this to the transcript,
  first with the fragment of the user and then with the fragment of the model, when
  the message carries them, whatever else the message carries.
\<close>

theorem transcript_append:
  "(prev \<noteq> [] \<and> speaker (last prev) = sp \<and> \<not> isFinal (last prev) \<longrightarrow>
      appendTranscript sp t f prev =
        butlast prev @ [(last prev)\<lparr> text' := text' (last prev) @ t, isFinal := f \<rparr>]
      \<and> length (appendTranscript sp t f prev) = length prev)
   \<and> (\<not> (prev \<noteq> [] \<and> speaker (last prev) = sp \<and> \<not> isFinal (last prev)) \<longrightarrow>
      appendTranscript sp t f prev = prev @ [\<lparr> speaker = sp, text' = t, isFinal = f \<rparr>])
   \<and> take (length prev - 1) (appendTranscript sp t f prev) = butlast prev
   \<and> length prev \<le> length (appendTranscript sp t f prev)
   \<and> transcripts (snd (snd (onmessage dec now m s))) =
       (case outputTranscription m of
          None \<Rightarrow> (\<lambda>p. p)
        | Some y \<Rightarrow> appendTranscript Model (t_text y) (t_isFinal y))
         ((case inputTranscription m of
             None \<Rightarrow> (\<lambda>p. p)
           | Some x \<Rightarrow> appendTranscript User (t_text x) (t_isFinal x)) (transcripts s))"
proof -
  have h: "transcripts (snd (snd (onmessage dec now m s))) =
       (case outputTranscription m of
          None \<Rightarrow> (\<lambda>p. p)
        | Some y \<Rightarrow> appendTranscript Model (t_text y) (t_isFinal y))
         ((case inputTranscription m of
             None \<Rightarrow> (\<lambda>p. p)
           | Some x \<Rightarrow> appendTranscript User (t_text x) (t_isFinal x)) (transcripts s))"
    by (simp add: onmessage_def transcribe_def enqueue_def interrupt_def Let_def
          split: option.splits prod.splits sum.splits)
  show ?thesis
    by (cases prev rule: rev_cases) (simp_all add: appendTranscript_if h)
qed

theorem transcript_append_witness:
  "[\<lparr> speaker = User, text' = ''Hel'', isFinal = False \<rparr>] \<noteq> []
   \<and> speaker (last [\<lparr> speaker = User, text' = ''Hel'', isFinal = False \<rparr>]) = User
   \<and> \<not> isFinal (last [\<lparr> speaker = User, text' = ''Hel'', isFinal = False \<rparr>])
   \<and> appendTranscript User ''lo'' False [\<lparr> speaker = User, text' = ''Hel'', isFinal = False \<rparr>]
       = [\<lparr> speaker = User, text' = ''Hello'', isFinal = False \<rparr>]
   \<and> \<not> speaker (last [\<lparr> speaker = User, text' = ''Hello'', isFinal = False \<rparr>]) = Model
   \<and> appendTranscript Model ''Hi'' False [\<lparr> speaker = User, text' = ''Hello'', isFinal = False \<rparr>]
       = [\<lparr> speaker = User, text' = ''Hello'', isFinal = False \<rparr>,
          \<lparr> speaker = Model, text' = ''Hi'', isFinal = False \<rparr>]
   \<and> transcripts (snd (snd (onmessage dec0 0
         \<lparr> inputTranscription = Some \<lparr> t_text = ''Hel'', t_isFinal = False \<rparr>,
           outputTranscription = Some \<lparr> t_text = ''Hi'', t_isFinal = True \<rparr>,
           inlineData = None, interrupted = False \<rparr> live)))
       = [\<lparr> speaker = User, text' = ''Hel'', isFinal = False \<rparr>,
          \<lparr> speaker = Model, text' = ''Hi'', isFinal = True \<rparr>]"
  using transcript_append [of "[\<lparr> speaker = User, text' = ''Hel'', isFinal = False \<rparr>]" User "''lo''" False]
    transcript_append [of "[\<lparr> speaker = User, text' = ''Hello'', isFinal = False \<rparr>]" Model "''Hi''" False
      dec0 0 "\<lparr> inputTranscription = Some \<lparr> t_text = ''Hel'', t_isFinal = False \<rparr>,
           outputTranscription = Some \<lparr> t_text = ''Hi'', t_isFinal = True \<rparr>,
           inlineData = None, interrupted = False \<rparr>" live]
  by (simp add: live_def appendTranscript_def)

section \<open>Teardown twice\<close>

lemma count_stop:
  "distinct xs \<Longrightarrow> x \<in> set xs \<Longrightarrow> count_list (map SourceStop xs) (SourceStop x) = 1"
  by (induction xs) (auto simp: count_list_0_iff)

lemma count_stop_other:
  "count_list (map SourceStop xs) (TracksStop a) = 0"
  "count_list (map SourceStop xs) (ProcessorDisconnect a) = 0"
  "count_list (map SourceStop xs) (ContextClose a) = 0"
  "count_list (map SourceStop xs) (SessionClose a) = 0"
  by (induction xs) auto

text \<open>
  Claim C2. \<open>cleanup\<close> is a total function, and a second \<open>cleanup\<close> right after a first
  one makes no call and leaves the state as the first one left it. Over the two
  invocations together, every resource the state held (the tracks of the media stream,
  the script processor, the input and the output audio context, each playback source
  in flight, the session) is released exactly once, and afterwards every handle is
  null and the set of sources is empty.
\<close>

theorem cleanup_idempotent:
  assumes "handles_distinct s"
  shows "cleanup (snd (cleanup s)) = ([], snd (cleanup s))
    \<and> (\<forall>m. mediaStream s = Some m \<longrightarrow> count_list (teardown2 s) (TracksStop m) = 1)
    \<and> (\<forall>p. scriptProcessor s = Some p \<longrightarrow> count_list (teardown2 s) (ProcessorDisconnect p) = 1)
    \<and> (\<forall>c. inputAudioContext s = Some c \<longrightarrow> count_list (teardown2 s) (ContextClose c) = 1)
    \<and> (\<forall>c. outputAudioContext s = Some c \<longrightarrow> count_list (teardown2 s) (ContextClose c) = 1)
    \<and> (\<forall>x \<in> set (audioSources s). count_list (teardown2 s) (SourceStop x) = 1)
    \<and> (\<forall>p. sessionPromise s = Some p \<longrightarrow> count_list (teardown2 s) (SessionClose p) = 1)
    \<and> mediaStream (snd (cleanup s)) = None \<and> scriptProcessor (snd (cleanup s)) = None
    \<and> inputAudioContext (snd (cleanup s)) = None \<and> outputAudioContext (snd (cleanup s)) = None
    \<and> audioSources (snd (cleanup s)) = [] \<and> sessionPromise (snd (cleanup s)) = None"
  using assms
  by (auto simp: teardown2_def cleanup_def release_def handles_distinct_def
        count_stop count_stop_other split: option.splits)

theorem cleanup_idempotent_witness:
  "distinct (audioSources busy) \<and> inputAudioContext busy = Some 1
   \<and> cleanup (snd (cleanup busy)) = ([], snd (cleanup busy))
   \<and> mediaStream busy = Some 0 \<and> count_list (teardown2 busy) (TracksStop 0) = 1
   \<and> scriptProcessor busy = Some 5 \<and> count_list (teardown2 busy) (ProcessorDisconnect 5) = 1
   \<and> count_list (teardown2 busy) (ContextClose 1) = 1
   \<and> outputAudioContext busy = Some 2 \<and> count_list (teardown2 busy) (ContextClose 2) = 1
   \<and> 7 \<in> set (audioSources busy) \<and> count_list (teardown2 busy) (SourceStop 7) = 1
   \<and> sessionPromise busy = Some 3 \<and> count_list (teardown2 busy) (SessionClose 3) = 1
   \<and> teardown2 busy = [TracksStop 0, ProcessorDisconnect 5, ContextClose 1, ContextClose 2,
        SourceStop 6, SourceStop 7, SessionClose 3]"
proof -
  have h: "handles_distinct busy"
    by (simp add: handles_distinct_def busy_def live_def)
  have t: "teardown2 busy = [TracksStop 0, ProcessorDisconnect 5, ContextClose 1, ContextClose 2,
        SourceStop 6, SourceStop 7, SessionClose 3]"
    by (simp add: teardown2_def cleanup_def release_def busy_def live_def)
  from cleanup_idempotent [OF h] h t show ?thesis
    by (simp add: busy_def live_def)
qed

section \<open>Interruption\<close>

text \<open>
  Claim C10. A message that carries the \<open>interrupted\<close> flag and nothing else stops the
  playback sources in flight and changes two cells only, the set of sources and the
  cursor: the transcript, the flags \<open>isActive\<close> and \<open>isConnecting\<close>, the media stream,
  the script processor, both audio contexts and the session are what they were, and
  the handler returns normally.
\<close>

theorem interrupted_only_frame:
  "onmessage dec now barge_in s =
     (map SourceStop (audioSources s), Inr (), s\<lparr> audioSources := [], nextStartTime := 0 \<rparr>)
   \<and> transcripts (snd (snd (onmessage dec now barge_in s))) = transcripts s
   \<and> isActive (snd (snd (onmessage dec now barge_in s))) = isActive s
   \<and> isConnecting (snd (snd (onmessage dec now barge_in s))) = isConnecting s
   \<and> mediaStream (snd (snd (onmessage dec now barge_in s))) = mediaStream s
   \<and> scriptProcessor (snd (snd (onmessage dec now barge_in s))) = scriptProcessor s
   \<and> inputAudioContext (snd (snd (onmessage dec now barge_in s))) = inputAudioContext s
   \<and> outputAudioContext (snd (snd (onmessage dec now barge_in s))) = outputAudioContext s
   \<and> sessionPromise (snd (snd (onmessage dec now barge_in s))) = sessionPromise s"
  by (simp add: onmessage_def transcribe_def enqueue_def interrupt_def barge_in_def)

section \<open>Scheduling of the chunks\<close>

lemma scheduled_append: "scheduled (a @ b) = scheduled a @ scheduled b"
  by (simp add: scheduled_def)

lemma scheduled_Nil: "scheduled [] = []"
  by (simp add: scheduled_def)

lemma chained_Cons:
  "chained r \<Longrightarrow> (\<forall>x \<in> set r. dadd (fst a) (snd a) \<le> fst x) \<Longrightarrow> chained (a # r)"
  by (cases r) auto

lemma chained_sorted:
  "chained es \<Longrightarrow> (\<forall>x \<in> set es. 0 \<le> snd x) \<Longrightarrow> sorted (map fst es)"
proof (induction es rule: chained.induct)
  case (1 a b r)
  then have "sorted (map fst (b # r))" and "dadd (fst a) (snd a) \<le> fst b" and "0 \<le> snd a"
    by auto
  moreover from \<open>0 \<le> snd a\<close> have "fst a \<le> dadd (fst a) (snd a)" by (rule dadd_ge)
  ultimately have "sorted (map fst (b # r))" and "fst a \<le> fst b" by auto
  then show ?case by (auto simp: order_trans)
qed simp_all

text \<open>One chunk: the start is the larger of cursor and clock, the cursor moves to its end.\<close>

lemma enqueue_cases:
  "enqueue dec now a s = ([], Inr (), s)
   \<or> enqueue dec now a s = ([], Inl DecodeError,
         s\<lparr> statusMessage := ''AI is speaking...'', nextStartTime := max (nextStartTime s) now \<rparr>)
   \<or> (\<exists>d. (\<exists>b. dec b = Some d) \<and> enqueue dec now a s =
         ([SourceStart (nextId s) (max (nextStartTime s) now) d], Inr (),
          s\<lparr> statusMessage := ''AI is speaking...'', nextId := nextId s + 1,
             nextStartTime := dadd (max (nextStartTime s) now) d,
             audioSources := audioSources s @ [nextId s] \<rparr>))"
  by (auto simp: enqueue_def Let_def split: option.splits)

lemma enqueue_sched:
  assumes "durations_nonneg dec"
  shows "nextStartTime s \<le> nextStartTime (snd (snd (enqueue dec now a s)))
     \<and> (\<forall>x \<in> set (scheduled (fst (enqueue dec now a s))).
          fst x = max (nextStartTime s) now \<and> nextStartTime s \<le> fst x \<and> 0 \<le> snd x
          \<and> dadd (fst x) (snd x) = nextStartTime (snd (snd (enqueue dec now a s))))
     \<and> length (scheduled (fst (enqueue dec now a s))) \<le> 1"
proof -
  have c: "nextStartTime s \<le> max (nextStartTime s) now" by simp
  from enqueue_cases [of dec now a s] consider
      "enqueue dec now a s = ([], Inr (), s)"
    | "enqueue dec now a s = ([], Inl DecodeError,
         s\<lparr> statusMessage := ''AI is speaking...'', nextStartTime := max (nextStartTime s) now \<rparr>)"
    | d where "\<exists>b. dec b = Some d" and "enqueue dec now a s =
         ([SourceStart (nextId s) (max (nextStartTime s) now) d], Inr (),
          s\<lparr> statusMessage := ''AI is speaking...'', nextId := nextId s + 1,
             nextStartTime := dadd (max (nextStartTime s) now) d,
             audioSources := audioSources s @ [nextId s] \<rparr>)"
    by blast
  then show ?thesis
  proof cases
    case 1
    then show ?thesis by (simp add: scheduled_def)
  next
    case 2
    then show ?thesis by (simp add: scheduled_def)
  next
    case 3
    from 3(1) assms have d: "0 \<le> d" by (auto simp: durations_nonneg_def)
    then have "max (nextStartTime s) now \<le> dadd (max (nextStartTime s) now) d" by (rule dadd_ge)
    with c have "nextStartTime s \<le> dadd (max (nextStartTime s) now) d" by (rule order_trans)
    with d 3(2) show ?thesis by (simp add: scheduled_def)
  qed
qed

lemma transcribe_cursor:
  "nextStartTime (transcribe sp tr s) = nextStartTime s"
  by (simp add: transcribe_def split: option.splits)

lemma onmessage_uninterrupted:
  assumes "\<not> interrupted m"
  shows "fst (onmessage dec now m s) =
           fst (enqueue dec now (inlineData m)
                 (transcribe Model (outputTranscription m) (transcribe User (inputTranscription m) s)))"
    and "snd (snd (onmessage dec now m s)) =
           snd (snd (enqueue dec now (inlineData m)
                 (transcribe Model (outputTranscription m) (transcribe User (inputTranscription m) s))))"
  using assms by (simp_all add: onmessage_def Let_def split: prod.splits sum.splits)

lemma onmessage_sched:
  assumes "durations_nonneg dec" and "\<not> interrupted m"
  shows "nextStartTime s \<le> nextStartTime (snd (snd (onmessage dec now m s)))
     \<and> (\<forall>x \<in> set (scheduled (fst (onmessage dec now m s))).
          fst x = max (nextStartTime s) now \<and> nextStartTime s \<le> fst x \<and> 0 \<le> snd x
          \<and> dadd (fst x) (snd x) = nextStartTime (snd (snd (onmessage dec now m s))))
     \<and> length (scheduled (fst (onmessage dec now m s))) \<le> 1"
  using enqueue_sched [OF assms(1),
      of "transcribe Model (outputTranscription m) (transcribe User (inputTranscription m) s)"
         now "inlineData m"]
  unfolding onmessage_uninterrupted [OF assms(2)] transcribe_cursor .

lemma run_messages_sched:
  assumes "durations_nonneg dec" and "\<forall>x \<in> set ms. \<not> interrupted (snd x)"
  shows "chained (scheduled (fst (run dec (messages ms) s)))
     \<and> nextStartTime s \<le> nextStartTime (snd (run dec (messages ms) s))
     \<and> (\<forall>x \<in> set (scheduled (fst (run dec (messages ms) s))).
          nextStartTime s \<le> fst x \<and> 0 \<le> snd x)"
  using assms(2)
proof (induction ms arbitrary: s)
  case Nil
  then show ?case by (simp add: messages_def scheduled_Nil)
next
  case (Cons p ms)
  obtain now m where p: "p = (now, m)" by (cases p)
  define s1 where "s1 = snd (snd (onmessage dec now m s))"
  define e1 where "e1 = scheduled (fst (onmessage dec now m s))"
  define r where "r = scheduled (fst (run dec (messages ms) s1))"
  from Cons.prems p have ni: "\<not> interrupted m" by simp
  note h = onmessage_sched [OF assms(1) ni, of s now, folded s1_def e1_def]
  from Cons.prems have "\<forall>x \<in> set ms. \<not> interrupted (snd x)" by simp
  note ih = Cons.IH [OF this, of s1, folded r_def]
  have eq: "scheduled (fst (run dec (messages (p # ms)) s)) = e1 @ r"
    and fin: "snd (run dec (messages (p # ms)) s) = snd (run dec (messages ms) s1)"
    by (simp_all add: p messages_def scheduled_append e1_def r_def s1_def)
  have g: "chained (e1 @ r)"
  proof (cases e1)
    case Nil
    with ih show ?thesis by simp
  next
    case (Cons a e1')
    with h have [simp]: "e1' = []" by simp
    from h Cons have "a \<in> set e1" by simp
    with h have "dadd (fst a) (snd a) = nextStartTime s1" by blast
    with ih have "\<forall>x \<in> set r. dadd (fst a) (snd a) \<le> fst x" by simp
    with ih Cons show ?thesis by (simp add: chained_Cons)
  qed
  from h have a: "nextStartTime s \<le> nextStartTime s1" by blast
  from ih have b: "nextStartTime s1 \<le> nextStartTime (snd (run dec (messages ms) s1))" by blast
  from a b have c: "nextStartTime s \<le> nextStartTime (snd (run dec (messages ms) s1))"
    by (rule order_trans)
  have "nextStartTime s \<le> fst x \<and> 0 \<le> snd x" if "x \<in> set (e1 @ r)" for x
  proof (cases "x \<in> set e1")
    case True
    with h show ?thesis by blast
  next
    case False
    with that have "x \<in> set r" by simp
    with ih have "nextStartTime s1 \<le> fst x" and "0 \<le> snd x" by blast+
    with a show ?thesis by (blast intro: order_trans [of "nextStartTime s" "nextStartTime s1"])
  qed
  then have "\<forall>x \<in> set (e1 @ r). nextStartTime s \<le> fst x \<and> 0 \<le> snd x" by blast
  with c show ?case using g by (simp only: eq fin)
qed

lemma dec0_nonneg: "durations_nonneg dec0"
  by (simp add: durations_nonneg_def dec0_def D_nonneg)

lemma live_run: "run dec0 [Click, MicResolved (Inr ()), Open 0] initial =
   ([GetUserMedia, MicOpened 0, ContextOpened 1, ContextOpened 2, Connect 3, ProcessorCreated 0 5], live)"
  by (simp add: initial_def live_def click_def handleToggleConversation_def
       handleToggleConversation_resume_def onopen_def Let_def)

lemma busy_run: "run dec0 (messages [(0, audio ''AAAA''), (D 1, audio ''AAAA'')]) live
   = ([SourceStart 6 0 (D 2), SourceStart 7 (D 2) (D 2)], busy)"
  by (simp add: messages_def live_def busy_def onmessage_def enqueue_def transcribe_def audio_def
        dec0_def Let_def double_simps)

text \<open>
  Claim C1, as the claim has it: each chunk starts at or after the start of the chunk
  before it plus the duration of that chunk. The cursor is that sum as line 357
  computes it, a rounded sum. With chunks of 0.1, 0.7 and 0.1 seconds the second chunk
  starts at 0.1 and the third at the double below 0.8, which is \<open>2 ^ -55\<close> less than
  the start of the second chunk plus its duration.
\<close>

theorem playback_exact_sum_counterexample:
  "scheduled (fst (run dec1 (messages [(0, audio ''A''), (0, audio ''B''), (0, audio ''A'')]) live))
     = [(0, D (1 / 10)), (D (1 / 10), D (7 / 10)), (dadd (D (1 / 10)) (D (7 / 10)), D (1 / 10))]
   \<and> val (D (1 / 10)) + val (D (7 / 10)) - val (dadd (D (1 / 10)) (D (7 / 10))) = 1 / 2 ^ 55
   \<and> \<not> gapless (scheduled (fst (run dec1 (messages [(0, audio ''A''), (0, audio ''B''), (0, audio ''A'')]) live)))"
proof -
  have v1: "val (D (1 / 10)) = 3602879701896397 / 2 ^ 55"
    by (simp only: val_D fl_tenth)
  have v7: "val (D (7 / 10)) = 3152519739159347 / 2 ^ 52"
    by (simp only: val_D fl_seven_tenths)
  have vs: "val (dadd (D (1 / 10)) (D (7 / 10))) = 7205759403792793 / 2 ^ 53"
    by (simp only: val_dadd v1 v7 fl_sum)
  have nn: "0 \<le> dadd (D (1 / 10)) (D (7 / 10))"
    by (intro dadd_nonneg D_nonneg) simp_all
  have mx: "max (dadd (D (1 / 10)) (D (7 / 10))) 0 = dadd (D (1 / 10)) (D (7 / 10))"
    using nn by (simp add: max_def)
  have e: "scheduled (fst (run dec1 (messages [(0, audio ''A''), (0, audio ''B''), (0, audio ''A'')]) live))
     = [(0, D (1 / 10)), (D (1 / 10), D (7 / 10)), (dadd (D (1 / 10)) (D (7 / 10)), D (1 / 10))]"
    by (simp add: messages_def live_def onmessage_def enqueue_def transcribe_def audio_def dec1_def
          scheduled_def Let_def dadd_0 max_D_0 mx)
  have d: "val (D (1 / 10)) + val (D (7 / 10)) - val (dadd (D (1 / 10)) (D (7 / 10))) = 1 / 2 ^ 55"
    by (simp add: v1 v7 vs)
  have g: "\<not> gapless [(0, D (1 / 10)), (D (1 / 10), D (7 / 10)), (dadd (D (1 / 10)) (D (7 / 10)), D (1 / 10))]"
    by (simp add: v1 v7 vs)
  from e d g show ?thesis by simp
qed

text \<open>
  Claim C1, amended. For every sequence of inbound messages none of which carries the
  \<open>interrupted\<close> flag, handled one after the other from any state and with any readings
  of the output clock, the playback sources are started in the order of arrival, each
  at or after the cursor left by the one started before it, which is the start of that
  one plus its duration as the language adds them (rounded to the nearest double), so
  that the start times never decrease; none starts before the cursor the sequence
  began with. One chunk alone is started at the larger of the cursor and the clock,
  and the cursor then stands at that sum.
\<close>

theorem playback_no_overlap:
  assumes "durations_nonneg dec" and "\<forall>x \<in> set ms. \<not> interrupted (snd x)"
  shows "chained (scheduled (fst (run dec (messages ms) s)))
     \<and> sorted (map fst (scheduled (fst (run dec (messages ms) s))))
     \<and> (\<forall>x \<in> set (scheduled (fst (run dec (messages ms) s))). nextStartTime s \<le> fst x)
     \<and> (\<not> interrupted m \<longrightarrow>
          (\<forall>y \<in> set (scheduled (fst (onmessage dec now m s))).
             fst y = max (nextStartTime s) now
             \<and> dadd (fst y) (snd y) = nextStartTime (snd (snd (onmessage dec now m s)))))"
proof -
  have one: "\<not> interrupted m \<longrightarrow>
          (\<forall>y \<in> set (scheduled (fst (onmessage dec now m s))).
             fst y = max (nextStartTime s) now
             \<and> dadd (fst y) (snd y) = nextStartTime (snd (snd (onmessage dec now m s))))"
    using onmessage_sched [OF assms(1), of m s now] by blast
  note all = run_messages_sched [OF assms, of s]
  from all have "sorted (map fst (scheduled (fst (run dec (messages ms) s))))"
    by (simp add: chained_sorted)
  moreover from all
  have "\<forall>x \<in> set (scheduled (fst (run dec (messages ms) s))). nextStartTime s \<le> fst x"
    by blast
  ultimately show ?thesis
    using all one by blast
qed

theorem playback_no_overlap_witness:
  "\<not> interrupted (audio ''AAAA'') \<and> \<not> interrupted (audio ''BB'')
   \<and> dec0 ''AAAA'' = Some (D 2) \<and> dec0 ''BB'' = Some (D 1)
   \<and> scheduled (fst (run dec0 (messages [(D 1, audio ''AAAA''), (D 2, audio ''BB''), (D 10, audio ''AAAA'')]) live))
        = [(D 1, D 2), (D 3, D 1), (D 10, D 2)]
   \<and> chained (scheduled (fst (run dec0 (messages [(D 1, audio ''AAAA''), (D 2, audio ''BB''), (D 10, audio ''AAAA'')]) live)))
   \<and> sorted (map fst (scheduled (fst (run dec0 (messages [(D 1, audio ''AAAA''), (D 2, audio ''BB''), (D 10, audio ''AAAA'')]) live))))
   \<and> nextStartTime busy = D 4
   \<and> scheduled (fst (onmessage dec0 (D 3) (audio ''BB'') busy)) = [(D 4, D 1)]
   \<and> nextStartTime (snd (snd (onmessage dec0 (D 3) (audio ''BB'') busy))) = D 5"
proof -
  have a: "\<forall>x \<in> set [(D 1, audio ''AAAA''), (D 2, audio ''BB''), (D 10, audio ''AAAA'')]. \<not> interrupted (snd x)"
    by (simp add: audio_def)
  have e: "scheduled (fst (run dec0 (messages [(D 1, audio ''AAAA''), (D 2, audio ''BB''), (D 10, audio ''AAAA'')]) live))
        = [(D 1, D 2), (D 3, D 1), (D 10, D 2)]"
    by (simp add: messages_def live_def onmessage_def enqueue_def transcribe_def audio_def dec0_def
          scheduled_def Let_def double_simps)
  have i: "\<not> interrupted (audio ''BB'')"
    by (simp add: audio_def)
  have o: "scheduled (fst (onmessage dec0 (D 3) (audio ''BB'') busy)) = [(D 4, D 1)]"
    by (simp add: busy_def live_def onmessage_def enqueue_def transcribe_def audio_def dec0_def
          scheduled_def Let_def double_simps)
  have c: "nextStartTime (snd (snd (onmessage dec0 (D 3) (audio ''BB'') busy))) = D 5"
    by (simp add: busy_def live_def onmessage_def enqueue_def transcribe_def audio_def dec0_def
          Let_def double_simps)
  have b: "nextStartTime busy = D 4"
    by (simp add: busy_def)
  have j: "\<not> interrupted (audio ''AAAA'')"
    by (simp add: audio_def)
  have d: "dec0 ''AAAA'' = Some (D 2) \<and> dec0 ''BB'' = Some (D 1)"
    by (simp add: dec0_def)
  from playback_no_overlap [OF dec0_nonneg a, of live "audio ''BB''" "D 3"]
    playback_no_overlap [OF dec0_nonneg a, of busy "audio ''BB''" "D 3"] e i j d o b c
  show ?thesis
    by simp
qed

section \<open>Interruption followed by a chunk\<close>

lemma interrupt_after:
  "fst (snd (onmessage dec now m s)) = Inr () \<Longrightarrow> interrupted m \<Longrightarrow>
     \<exists>es s3. enqueue dec now (inlineData m)
        (transcribe Model (outputTranscription m) (transcribe User (inputTranscription m) s)) = (es, Inr (), s3)
      \<and> onmessage dec now m s = (es @ map SourceStop (audioSources s3), Inr (), s3\<lparr> audioSources := [], nextStartTime := 0 \<rparr>)"
  by (auto simp: onmessage_def Let_def interrupt_def split: prod.splits sum.splits)

lemma enqueue_sources:
  "enqueue dec now a s = (es, r, s3) \<Longrightarrow>
     set (audioSources s) \<subseteq> set (audioSources s3)
     \<and> (\<forall>i t d. SourceStart i t d \<in> set es \<longrightarrow> i \<in> set (audioSources s3))
     \<and> outputAudioContext s3 = outputAudioContext s"
  by (auto simp: enqueue_def Let_def split: option.splits if_splits)

lemma transcribe_frame:
  "audioSources (transcribe sp tr s) = audioSources s"
  "outputAudioContext (transcribe sp tr s) = outputAudioContext s"
  by (simp_all add: transcribe_def split: option.splits)

text \<open>
  When the handler of a message flagged \<open>interrupted\<close> runs to its end, every playback
  source in flight has been stopped (the one the same message started included), the
  set of sources is empty and the cursor is zero, and a chunk enqueued next, at a
  clock reading \<open>now'\<close> that is not negative, is started at \<open>now'\<close>.
\<close>

lemma interruption_when_reached:
  assumes "interrupted m" and "fst (snd (onmessage dec now m s)) = Inr ()"
    and "outputAudioContext s \<noteq> None"
    and "inlineData m' = Some b" and "b \<noteq> []" and "dec b = Some d" and "0 \<le> now'"
  shows "audioSources (snd (snd (onmessage dec now m s))) = []
    \<and> nextStartTime (snd (snd (onmessage dec now m s))) = 0
    \<and> (\<forall>x \<in> set (audioSources s). SourceStop x \<in> set (fst (onmessage dec now m s)))
    \<and> (\<forall>i t d. SourceStart i t d \<in> set (fst (onmessage dec now m s))
          \<longrightarrow> SourceStop i \<in> set (fst (onmessage dec now m s)))
    \<and> scheduled (fst (onmessage dec now' m' (snd (snd (onmessage dec now m s))))) = [(now', d)]"
proof -
  from interrupt_after [OF assms(2,1)] obtain es s3 where
    e: "enqueue dec now (inlineData m)
        (transcribe Model (outputTranscription m) (transcribe User (inputTranscription m) s)) = (es, Inr (), s3)"
    and o: "onmessage dec now m s = (es @ map SourceStop (audioSources s3), Inr (), s3\<lparr> audioSources := [], nextStartTime := 0 \<rparr>)"
    by blast
  note f = enqueue_sources [OF e, unfolded transcribe_frame]
  have 1: "\<forall>x \<in> set (audioSources s). SourceStop x \<in> set (fst (onmessage dec now m s))"
    using f by (auto simp: o)
  have 2: "\<forall>i t d. SourceStart i t d \<in> set (fst (onmessage dec now m s))
          \<longrightarrow> SourceStop i \<in> set (fst (onmessage dec now m s))"
    using f by (auto simp: o)
  have 3: "scheduled (fst (onmessage dec now' m' (s3\<lparr> audioSources := [], nextStartTime := 0 \<rparr>))) = [(now', d)]"
    using assms(3-7) f
    by (auto simp: onmessage_def enqueue_def transcribe_def scheduled_def Let_def interrupt_def
          max_def split: option.splits)
  from 1 2 3 show ?thesis by (simp add: o)
qed

text \<open>
  Claim C4, on the code. The interruption block is the last statement of a handler
  that has no \<open>try\<close>. When the audio part of the same message does not decode, the
  throw at line 346 leaves the handler before the block: with the sources 6 and 7 in
  flight and the cursor at 4, a message flagged \<open>interrupted\<close> stops no source, leaves
  both in the set and leaves the cursor at 4, and the chunk enqueued next at the clock
  reading 2 is started at 4, the position before the interruption, not at 2.
\<close>

theorem interruption_lost_on_decode_error:
  "audioSources busy = [6, 7] \<and> nextStartTime busy = D 4
   \<and> interrupted ((audio ''!!'')\<lparr> interrupted := True \<rparr>)
   \<and> onmessage dec0 (D 1) ((audio ''!!'')\<lparr> interrupted := True \<rparr>) busy
       = ([], Inl DecodeError, busy)
   \<and> scheduled (fst (onmessage dec0 (D 2) (audio ''BB'')
        (snd (snd (onmessage dec0 (D 1) ((audio ''!!'')\<lparr> interrupted := True \<rparr>) busy)))))
       = [(D 4, D 1)]"
proof -
  have o: "onmessage dec0 (D 1) ((audio ''!!'')\<lparr> interrupted := True \<rparr>) busy
       = ([], Inl DecodeError, busy)"
    by (simp add: busy_def live_def onmessage_def enqueue_def transcribe_def audio_def dec0_def
          Let_def double_simps)
  have n: "scheduled (fst (onmessage dec0 (D 2) (audio ''BB'') busy)) = [(D 4, D 1)]"
    by (simp add: busy_def live_def onmessage_def enqueue_def transcribe_def audio_def dec0_def
          scheduled_def Let_def double_simps)
  show ?thesis
    unfolding o using n by (simp add: busy_def audio_def)
qed

section \<open>Capture encoding\<close>

lemma sint16: "- 32768 \<le> n \<Longrightarrow> n < 32768 \<Longrightarrow> sint (word_of_int n :: 16 word) = n"
  by (simp add: sint_sbintrunc' signed_take_bit_int_eq_self)

lemma trunc_bounds:
  "- 1 \<le> x \<Longrightarrow> x < 1 \<Longrightarrow> - 32768 \<le> trunc (x * 32768) \<and> trunc (x * 32768) < 32768"
  unfolding trunc_def by (auto simp: le_floor_iff floor_less_iff le_ceiling_iff ceiling_less_iff)

lemma trunc_near: "\<bar>real_of_int (trunc y) - y\<bar> < 1 \<and> \<bar>real_of_int (trunc y)\<bar> \<le> \<bar>y\<bar>"
  unfolding trunc_def by (auto; linarith)

lemma bytes16_cat: "word_cat (hd (tl (bytes16 w))) (hd (bytes16 w)) = w"
  unfolding bytes16_def
  by (simp, rule bit_word_eqI) (auto simp: bit_word_cat_iff bit_ucast_iff bit_drop_bit_eq)

lemma uint8Array_chunks:
  "i < length ws \<Longrightarrow> take 2 (drop (2 * i) (uint8Array ws)) = bytes16 (ws ! i)"
proof (induction ws arbitrary: i)
  case Nil
  then show ?case by simp
next
  case (Cons w ws)
  show ?case
  proof (cases i)
    case 0
    then show ?thesis by (simp add: uint8Array_def bytes16_def)
  next
    case (Suc j)
    with Cons.prems have "j < length ws" by simp
    from Cons.IH [OF this] Suc show ?thesis
      by (simp add: uint8Array_def bytes16_def)
  qed
qed

lemma uint8Array_length: "length (uint8Array ws) = 2 * length ws"
  by (induction ws) (simp_all add: uint8Array_def bytes16_def)

text \<open>
  Claim C5, as the claim has it: each sample becomes \<open>round (sample * 32768)\<close>, clamped
  at the boundary. The code does neither. The sample \<open>7/131072\<close> gives 1 where rounding
  gives 2, and the sample 1 gives \<open>-32768\<close>: the store wraps around, nothing clamps.
\<close>

theorem capture_encoding_counterexample:
  "sint (hd (int16 [7/131072])) = 1 \<and> round (7/131072 * 32768 :: real) = 2
   \<and> sint (hd (int16 [1])) = - 32768 \<and> round (1 * 32768 :: real) = 32768"
  by (simp add: int16_def toInt16_def trunc_def round_def)

text \<open>
  Claim C5, amended. Every sample \<open>x\<close> with \<open>-1 \<le> x < 1\<close> is stored as the 16-bit signed
  integer obtained by truncating \<open>x * 32768\<close> towards zero; it lies between \<open>-32768\<close> and
  \<open>32767\<close> and is less than 1 away from \<open>x * 32768\<close>. The integers are packed in order
  as two bytes each, the low byte first.
\<close>

theorem capture_encoding_truncates:
  assumes "\<forall>x \<in> set inputData. - 1 \<le> x \<and> x < 1"
  shows "map sint (int16 inputData) = map (\<lambda>x. trunc (x * 32768)) inputData
    \<and> (\<forall>x \<in> set inputData.
          - 32768 \<le> sint (toInt16 (x * 32768)) \<and> sint (toInt16 (x * 32768)) \<le> 32767
          \<and> \<bar>real_of_int (sint (toInt16 (x * 32768))) - x * 32768\<bar> < 1)
    \<and> length (uint8Array (int16 inputData)) = 2 * length inputData
    \<and> (\<forall>i < length inputData.
          take 2 (drop (2 * i) (uint8Array (int16 inputData))) = bytes16 (int16 inputData ! i)
          \<and> word_cat (hd (tl (bytes16 (int16 inputData ! i)))) (hd (bytes16 (int16 inputData ! i)))
              = int16 inputData ! i)"
proof -
  have s: "sint (toInt16 (x * 32768)) = trunc (x * 32768)" if "x \<in> set inputData" for x
    using assms that trunc_bounds [of x] by (simp add: toInt16_def sint16)
  then have 1: "map sint (int16 inputData) = map (\<lambda>x. trunc (x * 32768)) inputData"
    by (simp add: int16_def)
  have 2: "\<forall>x \<in> set inputData.
          - 32768 \<le> sint (toInt16 (x * 32768)) \<and> sint (toInt16 (x * 32768)) \<le> 32767
          \<and> \<bar>real_of_int (sint (toInt16 (x * 32768))) - x * 32768\<bar> < 1"
  proof
    fix x assume x: "x \<in> set inputData"
    with assms have "- 1 \<le> x" "x < 1" by auto
    from trunc_bounds [OF this] trunc_near [of "x * 32768"] s [OF x]
    show "- 32768 \<le> sint (toInt16 (x * 32768)) \<and> sint (toInt16 (x * 32768)) \<le> 32767
          \<and> \<bar>real_of_int (sint (toInt16 (x * 32768))) - x * 32768\<bar> < 1"
      by simp
  qed
  have 3: "length (uint8Array (int16 inputData)) = 2 * length inputData"
    by (simp add: uint8Array_length int16_def)
  have 4: "\<forall>i < length inputData.
          take 2 (drop (2 * i) (uint8Array (int16 inputData))) = bytes16 (int16 inputData ! i)
          \<and> word_cat (hd (tl (bytes16 (int16 inputData ! i)))) (hd (bytes16 (int16 inputData ! i)))
              = int16 inputData ! i"
    using uint8Array_chunks [of _ "int16 inputData"] bytes16_cat by (simp add: int16_def)
  from 1 2 3 4 show ?thesis by blast
qed

theorem capture_encoding_truncates_witness:
  "map sint (int16 [1/2, - 1, 7/131072, - (7/131072)]) = [16384, - 32768, 1, - 1]
   \<and> length (uint8Array (int16 [1/2, - 1, 7/131072, - (7/131072)])) = 8
   \<and> uint8Array (int16 [1/2, - 1, 7/131072, - (7/131072)]) = [0, 64, 0, 128, 1, 0, 255, 255]"
proof -
  have h: "\<forall>x \<in> set [1/2, - 1, 7/131072, - (7/131072)]. - 1 \<le> x \<and> x < (1 :: real)"
    by simp
  have t: "map (\<lambda>x. trunc (x * 32768)) [1/2, - 1, 7/131072, - (7/131072)] = [16384, - 32768, 1, - 1]"
    by (simp add: trunc_def)
  have b: "uint8Array (int16 [1/2, - 1, 7/131072, - (7/131072)]) = [0, 64, 0, 128, 1, 0, 255, 255]"
    by code_simp
  from capture_encoding_truncates [OF h] t b show ?thesis
    by simp
qed

lemmas lifecycle_defs = click_def handleToggleConversation_def handleToggleConversation_resume_def
  onopen_def onerror_def onclose_def cleanup_def release_def

section \<open>The cursor of the output timeline\<close>

lemma cleanup_cursor: "nextStartTime (snd (cleanup s)) = 0"
  by (simp add: cleanup_def)

lemma onmessage_state:
  "snd (snd (onmessage dec now m s)) =
       snd (snd (enqueue dec now (inlineData m)
         (transcribe Model (outputTranscription m) (transcribe User (inputTranscription m) s))))
   \<or> (interrupted m \<and> nextStartTime (snd (snd (onmessage dec now m s))) = 0)"
  by (auto simp: onmessage_def Let_def interrupt_def split: prod.splits sum.splits)

lemma onmessage_cursor:
  assumes "durations_nonneg dec"
  shows "nextStartTime s \<le> nextStartTime (snd (snd (onmessage dec now m s)))
     \<or> (interrupted m \<and> nextStartTime (snd (snd (onmessage dec now m s))) = 0)"
  using onmessage_state [of dec now m s]
    enqueue_sched [OF assms,
      of "transcribe Model (outputTranscription m) (transcribe User (inputTranscription m) s)"
         now "inlineData m", unfolded transcribe_cursor]
  by auto

text \<open>
  Claim C6, as the claim has it: only the interruption reset lowers the cursor. The
  close of the transport and a click on the stop button are no interruption, and both
  take the cursor of \<open>busy\<close> from 4 to 0, through \<open>cleanup\<close>.
\<close>

theorem cursor_reset_by_cleanup_counterexample:
  "nextStartTime (snd (step dec0 TransportClose busy)) < nextStartTime busy
   \<and> nextStartTime (snd (step dec0 Click busy)) < nextStartTime busy"
  by (simp add: busy_def live_def lifecycle_defs less_val val_0 val_D fl_numeral)

text \<open>
  Claim C6, amended. Every transition leaves the cursor at or above its previous value,
  except the transitions that run the interruption block or \<open>cleanup\<close> (a message
  flagged \<open>interrupted\<close>, a click on the stop button, a rejected microphone request, an
  error or close of the transport, the unmount): those set it to zero, or leave it at
  or above its previous value when the handler throws before the interruption block.
\<close>

theorem cursor_monotone_except_resets:
  assumes "durations_nonneg dec"
  shows "(\<not> resets e s \<longrightarrow> nextStartTime s \<le> nextStartTime (snd (step dec e s)))
    \<and> (resets e s \<longrightarrow> nextStartTime (snd (step dec e s)) = 0
                        \<or> nextStartTime s \<le> nextStartTime (snd (step dec e s)))"
proof (cases e)
  case (Message now m)
  with onmessage_cursor [OF assms, of s now m] show ?thesis by auto
next
  case Click
  then show ?thesis by (simp add: click_def handleToggleConversation_def cleanup_cursor)
next
  case (MicResolved r)
  then show ?thesis
    by (cases r) (simp_all add: handleToggleConversation_resume_def cleanup_cursor Let_def)
next
  case (Open stream)
  then show ?thesis by (simp add: onopen_def Let_def split: option.splits)
next
  case (Ended src)
  then show ?thesis by (simp add: onended_def Let_def)
qed (simp_all add: onerror_def onclose_def cleanup_cursor Let_def)

theorem cursor_monotone_except_resets_witness:
  "\<not> resets (Message (D 5) (audio ''AAAA'')) busy
   \<and> nextStartTime busy \<le> nextStartTime (snd (step dec0 (Message (D 5) (audio ''AAAA'')) busy))
   \<and> nextStartTime busy = D 4
   \<and> nextStartTime (snd (step dec0 (Message (D 5) (audio ''AAAA'')) busy)) = D 7
   \<and> resets (Message (D 5) barge_in) busy
   \<and> nextStartTime (snd (step dec0 (Message (D 5) barge_in) busy)) = 0"
proof -
  have n: "\<not> resets (Message (D 5) (audio ''AAAA'')) busy" by (simp add: audio_def)
  have r: "resets (Message (D 5) barge_in) busy" by (simp add: barge_in_def)
  have v: "nextStartTime (snd (step dec0 (Message (D 5) (audio ''AAAA'')) busy)) = D 7"
    by (simp add: busy_def live_def onmessage_def enqueue_def transcribe_def audio_def dec0_def
          Let_def double_simps)
  have w: "nextStartTime (snd (step dec0 (Message (D 5) barge_in) busy)) = 0"
    by (simp add: busy_def live_def onmessage_def enqueue_def transcribe_def barge_in_def interrupt_def Let_def)
  have b: "nextStartTime busy = D 4" by (simp add: busy_def)
  from cursor_monotone_except_resets [OF dec0_nonneg, of "Message (D 5) (audio ''AAAA'')" busy]
    cursor_monotone_except_resets [OF dec0_nonneg, of "Message (D 5) barge_in" busy]
    n r v w b
  show ?thesis by simp
qed

section \<open>A chunk that does not decode\<close>

text \<open>
  Claim C7, on the code. On a payload that does not decode the handler is left by the
  throw: no playback source is created, the session keeps its flags and handles, and
  the next valid chunk is started at the cursor. But the handler makes no call at all,
  so nothing is logged, and an \<open>interrupted\<close> flag on the same message is not acted upon:
  the sources in flight keep playing and the cursor is not reset.
\<close>

theorem decode_error_unlogged:
  "onmessage dec0 (D 1) (audio ''!!'') live
     = ([], Inl DecodeError, live\<lparr> statusMessage := ''AI is speaking...'', nextStartTime := D 1 \<rparr>)
   \<and> onmessage dec0 (D 5) ((audio ''!!'')\<lparr> interrupted := True \<rparr>) busy
     = ([], Inl DecodeError, busy\<lparr> nextStartTime := D 5 \<rparr>)
   \<and> scheduled (fst (run dec0 (messages [(D 1, audio ''!!''), (D 1, audio ''BB'')]) live)) = [(D 1, D 1)]"
  by (simp add: live_def busy_def onmessage_def enqueue_def transcribe_def audio_def dec0_def
        messages_def scheduled_def Let_def double_simps)

section \<open>Starting a session\<close>

text \<open>
  Claim C8. A start request makes one call before it waits, the microphone request.
  When that request is rejected, the rest of the start makes no \<open>Connect\<close> and sends no
  frame, in whatever state the rejection finds the component; the component is left
  idle (not connecting, not active, every handle null) with the error message set,
  and a capture callback in that state sends nothing.
\<close>

theorem mic_failure_aborts:
  assumes "\<not> isActive s"
  shows "fst (handleToggleConversation s) = [GetUserMedia]
    \<and> (\<forall>p. Connect p \<notin> set (fst (handleToggleConversation_resume (Inl e) s')))
    \<and> (\<forall>p bs. SendRealtimeInput p bs \<notin> set (fst (handleToggleConversation_resume (Inl e) s')))
    \<and> sessionPromise (snd (handleToggleConversation_resume (Inl e) s')) = None
    \<and> snd (handleToggleConversation_resume (Inl e) (snd (handleToggleConversation s)))
       = s\<lparr> isConnecting := False, isActive := False,
            statusMessage := ''Error. Press microphone to retry.'', transcripts := [],
            error := Some ''Could not start the microphone. Please check permissions and try again.'',
            sessionPromise := None, inputAudioContext := None, outputAudioContext := None,
            scriptProcessor := None, mediaStream := None, audioSources := [], nextStartTime := 0 \<rparr>
    \<and> onaudioprocess inputData (snd (handleToggleConversation_resume (Inl e) (snd (handleToggleConversation s)))) = []"
  using assms
  by (auto simp: handleToggleConversation_def handleToggleConversation_resume_def cleanup_def
        release_def onaudioprocess_def Let_def split: option.splits)

theorem mic_failure_aborts_witness:
  "\<not> isActive initial
   \<and> run dec0 [Click, MicResolved (Inl MicError)] initial
     = ([GetUserMedia, ConsoleError],
        initial\<lparr> statusMessage := ''Error. Press microphone to retry.'',
           error := Some ''Could not start the microphone. Please check permissions and try again.'' \<rparr>)"
proof -
  have a: "\<not> isActive initial" by (simp add: initial_def)
  have c: "step dec0 Click initial = handleToggleConversation initial"
    by (simp add: click_def initial_def)
  have f: "fst (handleToggleConversation_resume (Inl MicError) (snd (handleToggleConversation initial))) = [ConsoleError]"
    by (simp add: initial_def lifecycle_defs)
  from mic_failure_aborts [OF a, of MicError] a c f show ?thesis
    by (simp add: initial_def)
qed

section \<open>Two sessions at once\<close>

text \<open>
  In the states the button shows, a click starts nothing while a session is connecting
  or active: it reaches no handler in the first case and only tears down in the second.
\<close>

lemma click_connecting: "isConnecting s \<Longrightarrow> click s = ([], s)"
  by (simp add: click_def)

lemma click_active:
  "\<not> isConnecting s \<Longrightarrow> isActive s \<Longrightarrow>
     click s = (fst (cleanup s),
                (snd (cleanup s))\<lparr> statusMessage := ''Session ended. Press the microphone to start again.'' \<rparr>)"
  by (simp add: click_def handleToggleConversation_def)

text \<open>
  Claim C9, on the code. The flag \<open>isConnecting\<close> is the only guard of a pending start,
  and \<open>cleanup\<close> clears it. In the run \<open>race\<close> the \<open>onclose\<close> of the session just stopped
  arrives while the next microphone request is pending: the button is enabled again,
  the next click starts a third session, and both requests are granted. At the end two
  media streams (6 and 10) are open and two sessions (9 and 13) are connected, none of
  them released; the cells know the second of each only.
\<close>

theorem race_two_sessions:
  "\<not> isConnecting (snd (run dec0 (take 6 race) initial))
   \<and> \<not> isActive (snd (run dec0 (take 6 race) initial))
   \<and> fst (run dec0 race initial) =
     [GetUserMedia, MicOpened 0, ContextOpened 1, ContextOpened 2, Connect 3,
      ProcessorCreated 0 5, TracksStop 0, ProcessorDisconnect 5,
      ContextClose 1, ContextClose 2, SessionClose 3, GetUserMedia,
      MicOpened 6, ContextOpened 7, ContextOpened 8, Connect 9, GetUserMedia,
      MicOpened 10, ContextOpened 11, ContextOpened 12, Connect 13]
   \<and> held_streams (fst (run dec0 race initial)) = [6, 10]
   \<and> open_sessions (fst (run dec0 race initial)) = [9, 13]
   \<and> mediaStream (snd (run dec0 race initial)) = Some 10
   \<and> sessionPromise (snd (run dec0 race initial)) = Some 13"
proof -
  have e: "fst (run dec0 race initial) =
     [GetUserMedia, MicOpened 0, ContextOpened 1, ContextOpened 2, Connect 3,
      ProcessorCreated 0 5, TracksStop 0, ProcessorDisconnect 5,
      ContextClose 1, ContextClose 2, SessionClose 3, GetUserMedia,
      MicOpened 6, ContextOpened 7, ContextOpened 8, Connect 9, GetUserMedia,
      MicOpened 10, ContextOpened 11, ContextOpened 12, Connect 13]"
    by code_simp
  have h: "held_streams (fst (run dec0 race initial)) = [6, 10]"
    and o: "open_sessions (fst (run dec0 race initial)) = [9, 13]"
    unfolding e by (simp_all add: held_streams_def open_sessions_def)
  have g: "\<not> isConnecting (snd (run dec0 (take 6 race) initial))
      \<and> \<not> isActive (snd (run dec0 (take 6 race) initial))"
    by code_simp
  have f: "mediaStream (snd (run dec0 race initial)) = Some 10
      \<and> sessionPromise (snd (run dec0 race initial)) = Some 13"
    by code_simp
  from e h o g f show ?thesis by blast
qed

end
